theory Spec2Isabelle
  imports Main "HOL-Library.AList" "HOL-Library.Stream" "HOL-Library.Multiset"
begin

section \<open>Data model of \<open>src/index.ts\<close>\<close>

text \<open>
  A \<open>Date\<close> is a point in time, counted in milliseconds. The two counters
  (\<open>clickCount\<close>, \<open>counter\<close>) are JavaScript numbers, that is doubles; they
  start at 0 and are only ever changed by \<open>++\<close>, so they hold natural
  numbers. What \<open>++\<close> does to such a double is \<open>increment\<close> below.
\<close>

type_synonym Date = nat

record ShortenedUrl =
  url_id :: string
  originalUrl :: string
  shortCode :: string
  createdAt :: Date
  clickCount :: nat
  lastAccessed :: "Date option"

text \<open>
  \<open>urls\<close> is a JavaScript object used as a dictionary. It is modelled by the
  list of its own properties in the order of their creation, so that the
  enumeration order of \<open>Object.values\<close> can be computed.
\<close>

record UrlStorage =
  urls :: "(string \<times> ShortenedUrl) list"
  counter :: nat

text \<open>
  The state of a \<open>UrlShortener\<close> object: its \<open>storage\<close>, and the documents
  handed to \<open>fs.writeFileSync\<close> so far, newest first. The object \<open>urls\<close>
  inherits from \<open>Object.prototype\<close>, which the process shares and which
  \<open>expandUrl\<close> can write to: \<open>prototype_lastAccessed\<close> is the property
  \<open>lastAccessed\<close> of \<open>Object.prototype\<close>, absent in a new process.
\<close>

record UrlShortener =
  storage :: UrlStorage
  written :: "UrlStorage list"
  prototype_lastAccessed :: "Date option"

datatype error = InvalidUrl | CodeAlreadyExists

text \<open>What \<open>expandUrl\<close> returns: a string, \<open>null\<close> or \<open>undefined\<close>.\<close>

datatype resolved = Url string | Null | Undefined

section \<open>JavaScript numbers and inherited properties\<close>

text \<open>
  \<open>n + 1\<close> on a double that holds the natural number \<open>n\<close>: exact below
  \<open>2^53\<close>. From there up to \<open>2^54\<close> the doubles are the even numbers,
  \<open>n + 1\<close> lies half way between two of them and is rounded to the one with
  the even significand; from \<open>2^54\<close> on the sum is rounded back to \<open>n\<close>.
\<close>

definition increment :: "nat \<Rightarrow> nat" where
  "increment n =
     (if n < 2 ^ 53 then n + 1
      else if n < 2 ^ 54 \<and> odd (n div 2) then n + 2
      else n)"

text \<open>
  The names of the properties of \<open>Object.prototype\<close>. Each of them holds a
  function, but for \<open>__proto__\<close>, which holds \<open>Object.prototype\<close> itself.
\<close>

definition Object_prototype :: "string list" where
  "Object_prototype =
     [''constructor'', ''__defineGetter__'', ''__defineSetter__'', ''hasOwnProperty'',
      ''__lookupGetter__'', ''__lookupSetter__'', ''isPrototypeOf'',
      ''propertyIsEnumerable'', ''toString'', ''valueOf'', ''__proto__'',
      ''toLocaleString'']"

text \<open>
  \<open>urls[code]\<close> is the own property \<open>code\<close> of \<open>urls\<close> when there is one, and
  the property \<open>code\<close> of \<open>Object.prototype\<close> otherwise. \<open>inherited s code\<close>:
  \<open>Object.prototype\<close> has a property \<open>code\<close> with a truthy value. (Once
  \<open>expandUrl("__proto__")\<close> has run, \<open>Object.prototype\<close> has the properties
  \<open>lastAccessed\<close>, a date, and \<open>clickCount\<close>, which is \<open>NaN\<close> and so falsy.)
\<close>

definition inherited :: "UrlShortener \<Rightarrow> string \<Rightarrow> bool" where
  "inherited s code \<longleftrightarrow>
     code \<in> set Object_prototype \<or>
     (code = ''lastAccessed'' \<and> prototype_lastAccessed s \<noteq> None)"

section \<open>Numbers as decimal strings, property order\<close>

definition digits :: string where
  "digits = ''0123456789''"

text \<open>
  The decimal rendering of a number, as a template literal prints the
  numbers below \<open>10^21\<close>; the counter of a run stops at \<open>2^53\<close>.
\<close>

fun number_toString :: "nat \<Rightarrow> string" where
  "number_toString n =
     (if n < 10 then [digits ! n]
      else number_toString (n div 10) @ [digits ! (n mod 10)])"

declare number_toString.simps [simp del]

definition digit_value :: "char \<Rightarrow> nat" where
  "digit_value c = length (takeWhile (\<lambda>d. d \<noteq> c) digits)"

definition parse_digits :: "string \<Rightarrow> nat" where
  "parse_digits k = foldl (\<lambda>n c. 10 * n + digit_value c) 0 k"

text \<open>
  A property key is an array index when it is the canonical decimal string
  of an integer below \<open>2^32 - 1\<close>. Such keys are enumerated first, in
  ascending numeric order; all other keys follow in creation order.
\<close>

definition is_array_index :: "string \<Rightarrow> bool" where
  "is_array_index k \<longleftrightarrow>
     k \<noteq> [] \<and> list_all (\<lambda>c. c \<in> set digits) k \<and>
     number_toString (parse_digits k) = k \<and> parse_digits k < 2 ^ 32 - 1"

definition own_entries :: "(string \<times> 'v) list \<Rightarrow> (string \<times> 'v) list" where
  "own_entries ps =
     sort_key (\<lambda>p. parse_digits (fst p)) (filter (\<lambda>p. is_array_index (fst p)) ps)
     @ filter (\<lambda>p. \<not> is_array_index (fst p)) ps"

definition Object_values :: "(string \<times> 'v) list \<Rightarrow> 'v list" where
  "Object_values ps = map snd (own_entries ps)"



section \<open>Persistence and validation\<close>

text \<open>
  \<open>loadStorage\<close> when the storage file is missing or unreadable, and the
  object the constructor builds from it.
\<close>

definition loadStorage :: UrlStorage where
  "loadStorage = \<lparr>urls = [], counter = 0\<rparr>"

definition new_UrlShortener :: UrlShortener where
  "new_UrlShortener =
     \<lparr>storage = loadStorage, written = [], prototype_lastAccessed = None\<rparr>"

definition saveStorage :: "UrlShortener \<Rightarrow> UrlShortener" where
  "saveStorage s = s\<lparr>written := storage s # written s\<rparr>"

text \<open>
  \<open>new URL(url)\<close> is the URL constructor of the platform; it is a parameter
  \<open>newURL\<close> of the model, \<open>None\<close> standing for the \<open>TypeError\<close> it throws.
\<close>

definition isValidUrl :: "(string \<Rightarrow> 'u option) \<Rightarrow> string \<Rightarrow> bool" where
  "isValidUrl newURL url = (case newURL url of Some _ \<Rightarrow> True | None \<Rightarrow> False)"

section \<open>The URL constructor of the platform\<close>

text \<open>
  The constructor is not code of the repository. It follows the URL
  standard; its rules for a string parsed without a base URL are modelled
  here up to the point where an authority (user info, host, port) is
  parsed. That last part is left as a parameter \<open>parse_authority\<close>, which
  takes the scheme and the input that is left and returns the host, or
  \<open>None\<close> for a failure.

  First the input loses its leading and trailing characters up to U+0020
  and all its tabs and newlines.
\<close>

definition c0_or_space :: "char \<Rightarrow> bool" where
  "c0_or_space c \<longleftrightarrow>
     \<not> digit7 c \<and> \<not> digit6 c \<and>
     (\<not> digit5 c \<or> \<not> (digit0 c \<or> digit1 c \<or> digit2 c \<or> digit3 c \<or> digit4 c))"

definition tab_or_newline :: "char \<Rightarrow> bool" where
  "tab_or_newline c \<longleftrightarrow> c = CHR 0x09 \<or> c = CHR 0x0A \<or> c = CHR 0x0D"

definition url_input :: "string \<Rightarrow> string" where
  "url_input u =
     filter (\<lambda>c. \<not> tab_or_newline c)
       (rev (dropWhile c0_or_space (rev (dropWhile c0_or_space u))))"

text \<open>
  A scheme is a letter followed by letters, digits, \<open>+\<close>, \<open>-\<close> and \<open>.\<close>, up to
  a colon, in lower case. A string that does not start with one is
  rejected, there being no base URL.
\<close>

definition lower_letters :: string where
  "lower_letters = ''abcdefghijklmnopqrstuvwxyz''"

definition upper_letters :: string where
  "upper_letters = ''ABCDEFGHIJKLMNOPQRSTUVWXYZ''"

definition to_lower :: "char \<Rightarrow> char" where
  "to_lower c = (case map_of (zip upper_letters lower_letters) c of Some l \<Rightarrow> l | None \<Rightarrow> c)"

definition ascii_alpha :: "char \<Rightarrow> bool" where
  "ascii_alpha c \<longleftrightarrow> c \<in> set lower_letters \<or> c \<in> set upper_letters"

definition scheme_char :: "char \<Rightarrow> bool" where
  "scheme_char c \<longleftrightarrow> ascii_alpha c \<or> c \<in> set ''0123456789+-.''"

fun scheme_state :: "string \<Rightarrow> string \<Rightarrow> (string \<times> string) option" where
  "scheme_state buffer [] = None"
| "scheme_state buffer (c # cs) =
     (if scheme_char c then scheme_state (buffer @ [to_lower c]) cs
      else if c = CHR '':'' then Some (buffer, cs)
      else None)"

definition split_scheme :: "string \<Rightarrow> (string \<times> string) option" where
  "split_scheme u =
     (case url_input u of
        [] \<Rightarrow> None
      | c # cs \<Rightarrow> if ascii_alpha c then scheme_state [to_lower c] cs else None)"

text \<open>
  After the scheme: a special scheme is followed by an authority, after any
  number of slashes and backslashes (for \<open>file\<close>, the parameter is handed
  all that is left). Any other scheme is followed by an authority only
  after \<open>//\<close>; without it the rest is a path, which never fails to parse,
  and the URL has no host.
\<close>

definition special_schemes :: "string list" where
  "special_schemes = [''ftp'', ''file'', ''http'', ''https'', ''ws'', ''wss'']"

definition authority_input :: "string \<Rightarrow> string \<Rightarrow> string option" where
  "authority_input scheme rest =
     (if scheme = ''file'' then Some rest
      else if scheme \<in> set special_schemes
      then Some (dropWhile (\<lambda>c. c = CHR ''/'' \<or> c = CHR 0x5C) rest)
      else if take 2 rest = ''//'' then Some (drop 2 rest)
      else None)"

record URL =
  url_scheme :: string
  url_host :: "string option"

definition new_URL :: "(string \<Rightarrow> string \<Rightarrow> string option) \<Rightarrow> string \<Rightarrow> URL option" where
  "new_URL parse_authority u =
     (case split_scheme u of
        None \<Rightarrow> None
      | Some (scheme, rest) \<Rightarrow>
          (case authority_input scheme rest of
             None \<Rightarrow> Some \<lparr>url_scheme = scheme, url_host = None\<rparr>
           | Some a \<Rightarrow>
               (case parse_authority scheme a of
                  None \<Rightarrow> None
                | Some h \<Rightarrow> Some \<lparr>url_scheme = scheme, url_host = Some h\<rparr>)))"

text \<open>
  The criterion in the words of the specification: a well-formed absolute
  URL, in which both a scheme and an authority parse.
\<close>

definition spec_well_formed :: "(string \<Rightarrow> string \<Rightarrow> string option) \<Rightarrow> string \<Rightarrow> bool" where
  "spec_well_formed parse_authority u =
     (case new_URL parse_authority u of
        None \<Rightarrow> False
      | Some url \<Rightarrow> url_host url \<noteq> None)"

section \<open>Short code generation\<close>

definition chars :: string where
  "chars = ''abcdefghijklmnopqrstuvwxyzABCDEFGHIJKLMNOPQRSTUVWXYZ0123456789''"

definition charAt :: "string \<Rightarrow> nat \<Rightarrow> string" where
  "charAt s i = (if i < length s then [s ! i] else [])"

text \<open>
  \<open>crypto.randomInt(min, max)\<close> returns an integer in \<open>[min, max)\<close>. The
  random source is a stream of natural numbers; each call consumes one.
\<close>

definition randomInt :: "nat \<Rightarrow> nat \<Rightarrow> nat \<Rightarrow> nat" where
  "randomInt lo hi r = lo + r mod (hi - lo)"

text \<open>The \<open>for\<close> loop of \<open>generateShortCode\<close>, from index \<open>i\<close> on.\<close>

function code_loop :: "nat \<Rightarrow> string \<Rightarrow> nat stream \<Rightarrow> string \<times> nat stream" where
  "code_loop i result rs =
     (if i < 6
      then code_loop (i + 1)
             (result @ charAt chars (randomInt 0 (length chars) (shd rs))) (stl rs)
      else (result, rs))"
  by pat_completeness auto
termination
  by (relation "measure (\<lambda>(i, result, rs). 6 - i)") auto

declare code_loop.simps [simp del]

text \<open>
  \<open>generateShortCode\<close> calls itself again on a collision, with no bound:
  \<open>None\<close> is the run that never returns. Its test \<open>urls[result]\<close> is of a
  string of six letters and digits; no inherited property has such a name
  (lemma \<open>inherited_length\<close> below), so the test is one for an own property.
\<close>

partial_function (option) generateShortCode ::
  "(string \<times> ShortenedUrl) list \<Rightarrow> nat stream \<Rightarrow> string option" where
  "generateShortCode us rs =
     (let p = code_loop 0 [] rs in
      if map_of us (fst p) \<noteq> None then generateShortCode us (snd p)
      else Some (fst p))"

section \<open>Operations of the registry\<close>

definition shortenUrl ::
  "(string \<Rightarrow> 'u option) \<Rightarrow> Date \<Rightarrow> nat stream \<Rightarrow> UrlShortener \<Rightarrow> string \<Rightarrow> string option
     \<Rightarrow> ((error + ShortenedUrl) \<times> UrlShortener) option" where
  "shortenUrl newURL now rs s url customCode =
     (if \<not> isValidUrl newURL url then Some (Inl InvalidUrl, s)
      else
        case find (\<lambda>r. originalUrl r = url) (Object_values (urls (storage s))) of
          Some existing \<Rightarrow> Some (Inr existing, s)
        | None \<Rightarrow>
            (case (case customCode of
                     Some c \<Rightarrow> if c \<noteq> [] then Some c
                               else generateShortCode (urls (storage s)) rs
                   | None \<Rightarrow> generateShortCode (urls (storage s)) rs) of
               None \<Rightarrow> None
             | Some code \<Rightarrow>
                 if map_of (urls (storage s)) code \<noteq> None \<or> inherited s code
                 then Some (Inl CodeAlreadyExists, s)
                 else
                   let n = increment (counter (storage s));
                       shortenedUrl =
                         \<lparr>url_id = ''url_'' @ number_toString n,
                          originalUrl = url,
                          shortCode = code,
                          createdAt = now,
                          clickCount = 0,
                          lastAccessed = None\<rparr>;
                       st = \<lparr>urls = AList.update code shortenedUrl (urls (storage s)),
                             counter = n\<rparr>
                   in Some (Inr shortenedUrl, saveStorage (s\<lparr>storage := st\<rparr>))))"

text \<open>
  In \<open>expandUrl\<close>, \<open>urlData\<close> may be an inherited object. The two
  assignments then write to that object, which matters later only when it
  is \<open>Object.prototype\<close>; its property \<open>originalUrl\<close> is \<open>undefined\<close>.
\<close>

definition expandUrl ::
  "Date \<Rightarrow> UrlShortener \<Rightarrow> string \<Rightarrow> bool \<Rightarrow> resolved \<times> UrlShortener" where
  "expandUrl now s code trackClick =
     (case map_of (urls (storage s)) code of
        Some urlData \<Rightarrow>
          if trackClick then
            let urlData' = urlData\<lparr>clickCount := increment (clickCount urlData),
                                   lastAccessed := Some now\<rparr>;
                st = (storage s)\<lparr>urls := AList.update code urlData' (urls (storage s))\<rparr>
            in (Url (originalUrl urlData'), saveStorage (s\<lparr>storage := st\<rparr>))
          else (Url (originalUrl urlData), s)
      | None \<Rightarrow>
          if inherited s code then
            if trackClick then
              (Undefined,
               saveStorage (if code = ''__proto__''
                            then s\<lparr>prototype_lastAccessed := Some now\<rparr> else s))
            else (Undefined, s)
          else (Null, s))"








definition listUrls :: "UrlShortener \<Rightarrow> ShortenedUrl list" where
  "listUrls s = Object_values (urls (storage s))"

text \<open>\<open>delete\<close> on a name that is not an own property does nothing.\<close>

definition deleteUrl :: "UrlShortener \<Rightarrow> string \<Rightarrow> bool \<times> UrlShortener" where
  "deleteUrl s code =
     (if map_of (urls (storage s)) code \<noteq> None \<or> inherited s code
      then (True,
            saveStorage (s\<lparr>storage := (storage s)\<lparr>urls := AList.delete code (urls (storage s))\<rparr>\<rparr>))
      else (False, s))"

section \<open>Runs, invariant and example data\<close>

text \<open>The code that the \<open>k\<close>-th run of the \<open>for\<close> loop draws from the random source.\<close>

definition attempt :: "nat stream \<Rightarrow> nat \<Rightarrow> string" where
  "attempt rs k = fst (code_loop 0 [] (sdrop (6 * k) rs))"

text \<open>
  What every operation keeps true of the registry: short codes are unique,
  each record is stored under its own non-empty short code, no URL is
  stored twice, and every stored URL passed validation.
\<close>

definition registry_inv :: "(string \<Rightarrow> 'u option) \<Rightarrow> UrlShortener \<Rightarrow> bool" where
  "registry_inv newURL s \<longleftrightarrow>
     distinct (map fst (urls (storage s))) \<and>
     distinct (map (\<lambda>p. originalUrl (snd p)) (urls (storage s))) \<and>
     list_all (\<lambda>p. shortCode (snd p) = fst p \<and> fst p \<noteq> [] \<and>
                     isValidUrl newURL (originalUrl (snd p)))
       (urls (storage s))"

text \<open>
  The ids handed out by one call of \<open>shortenUrl\<close>: that of the returned
  record when the call changed the registry, none otherwise.
\<close>

definition assigned ::
  "UrlShortener \<Rightarrow> (error + ShortenedUrl) \<times> UrlShortener \<Rightarrow> string list" where
  "assigned s out =
     (case fst out of
        Inr r \<Rightarrow> if snd out \<noteq> s then [url_id r] else []
      | Inl e \<Rightarrow> [])"


text \<open>
  \<open>run newURL s ids\<close>: starting from a new registry, some sequence of calls
  of \<open>shortenUrl\<close>, \<open>expandUrl\<close> and \<open>deleteUrl\<close> (with any arguments, clock
  and random source) leads to the state \<open>s\<close>, and \<open>ids\<close> are the ids handed
  out on the way, in order. \<open>getStats\<close> and \<open>listUrls\<close> do not touch the state.
\<close>

inductive run :: "(string \<Rightarrow> 'u option) \<Rightarrow> UrlShortener \<Rightarrow> string list \<Rightarrow> bool"
  for newURL :: "string \<Rightarrow> 'u option" where
  run_new: "run newURL new_UrlShortener []"
| run_shorten:
    "run newURL s ids \<Longrightarrow> shortenUrl newURL now rs s url customCode = Some out
       \<Longrightarrow> run newURL (snd out) (ids @ assigned s out)"
| run_expand:
    "run newURL s ids \<Longrightarrow> run newURL (snd (expandUrl now s code trackClick)) ids"
| run_delete:
    "run newURL s ids \<Longrightarrow> run newURL (snd (deleteUrl s code)) ids"

text \<open>
  For the examples, an authority parser that knows hosts of lower-case
  letters and dots only, up to the first \<open>/\<close>, \<open>?\<close> or \<open>#\<close>, and the URL
  constructor with it. On the strings used in the examples it does what
  the platform does.
\<close>

definition letters :: string where
  "letters = ''abcdefghijklmnopqrstuvwxyz''"

definition example_authority :: "string \<Rightarrow> string \<Rightarrow> string option" where
  "example_authority scheme a =
     (let host = takeWhile (\<lambda>c. c \<notin> set ''/?#'') a
      in if host \<noteq> [] \<and> list_all (\<lambda>c. c \<in> set letters \<or> c = CHR ''.'') host
         then Some host else None)"

definition example_URL :: "string \<Rightarrow> URL option" where
  "example_URL = new_URL example_authority"

definition example_record :: "string \<Rightarrow> nat \<Rightarrow> string \<Rightarrow> nat \<Rightarrow> ShortenedUrl" where
  "example_record code n url clicks =
     \<lparr>url_id = ''url_'' @ number_toString n, originalUrl = url, shortCode = code,
      createdAt = 0, clickCount = clicks, lastAccessed = None\<rparr>"

text \<open>The registry after \<open>shortenUrl("http://a.io", "ex1")\<close> on a new one.\<close>

definition example_storage :: UrlStorage where
  "example_storage =
     \<lparr>urls = [(''ex1'', example_record ''ex1'' 1 ''http://a.io'' 0)], counter = 1\<rparr>"

definition example_registry :: UrlShortener where
  "example_registry =
     \<lparr>storage = example_storage, written = [example_storage],
      prototype_lastAccessed = None\<rparr>"

text \<open>
  The three steps of \<open>shortenUrl\<close> past its two early exits, named for the
  lemmas: the code it settles on, the record it builds and the state it
  leaves.
\<close>

definition created_record :: "Date \<Rightarrow> UrlShortener \<Rightarrow> string \<Rightarrow> string \<Rightarrow> ShortenedUrl" where
  "created_record now s u code =
     \<lparr>url_id = ''url_'' @ number_toString (increment (counter (storage s))),
      originalUrl = u, shortCode = code, createdAt = now, clickCount = 0,
      lastAccessed = None\<rparr>"

definition created_state :: "Date \<Rightarrow> UrlShortener \<Rightarrow> string \<Rightarrow> string \<Rightarrow> UrlShortener" where
  "created_state now s u code =
     saveStorage (s\<lparr>storage :=
       \<lparr>urls = urls (storage s) @ [(code, created_record now s u code)],
        counter = increment (counter (storage s))\<rparr>\<rparr>)"

definition chosen :: "(string \<times> ShortenedUrl) list \<Rightarrow> nat stream \<Rightarrow> string option \<Rightarrow> string option" where
  "chosen us rs cc =
     (case cc of Some c \<Rightarrow> if c \<noteq> [] then Some c else generateShortCode us rs
      | None \<Rightarrow> generateShortCode us rs)"

text \<open>
  More example data: the registry after a second call,
  \<open>shortenUrl("http://b.io")\<close>, that drew the code \<open>aaaaaa\<close>; and a random
  source whose first six draws give \<open>aaaaaa\<close> again and \<open>bbbbbb\<close> after that.
\<close>

definition example_registry2 :: UrlShortener where
  "example_registry2 = created_state 7 example_registry ''http://b.io'' ''aaaaaa''"

definition example_draws :: "nat stream" where
  "example_draws = replicate 6 0 @- sconst 1"






section \<open>Decimal strings\<close>











lemma length_chars: "length chars = 62"
  by (simp add: chars_def)

lemma code_loop_stake:
  "i \<le> 6 \<Longrightarrow> code_loop i result rs =
     (result @ map (\<lambda>r. chars ! (r mod 62)) (stake (6 - i) rs), sdrop (6 - i) rs)"
proof (induction i result rs rule: code_loop.induct)
  case (1 i result rs)
  show ?case
  proof (cases "i < 6")
    case True
    then have "6 - i = Suc (6 - (i + 1))" by simp
    with True 1 show ?thesis
      by (subst code_loop.simps) (simp add: charAt_def randomInt_def length_chars)
  next
    case False
    with 1 show ?thesis by (subst code_loop.simps) simp
  qed
qed

section \<open>Enumeration, sorting and code generation\<close>

lemma mset_own_entries: "mset (own_entries ps) = mset ps"
  by (simp add: own_entries_def)

lemma mset_Object_values: "mset (Object_values ps) = mset (map snd ps)"
  by (simp add: Object_values_def mset_own_entries)

lemma set_Object_values: "set (Object_values ps) = snd ` set ps"
  using mset_Object_values [of ps] by (metis set_mset_mset set_map)

lemma Object_values_Nil: "Object_values [] = []"
  by (simp add: Object_values_def own_entries_def)









lemma update_absent: "map_of ps k = None \<Longrightarrow> AList.update k v ps = ps @ [(k, v)]"
  by (induction ps) (auto split: if_splits)

lemma code_loop_0: "code_loop 0 [] rs = (map (\<lambda>r. chars ! (r mod 62)) (stake 6 rs), sdrop 6 rs)"
  using code_loop_stake [of 0 "[]" rs] by simp

lemma gen_unfold:
  "generateShortCode us rs =
     (if map_of us (attempt rs 0) \<noteq> None then generateShortCode us (sdrop 6 rs)
      else Some (attempt rs 0))"
  by (subst generateShortCode.simps) (simp add: attempt_def code_loop_0 Let_def)

lemma attempt_sdrop: "attempt (sdrop 6 rs) k = attempt rs (Suc k)"
  by (simp add: attempt_def sdrop_add [symmetric] del: sdrop_add)

lemma gen_Some:
  assumes "generateShortCode us rs = Some c"
  shows "\<exists>k. c = attempt rs k \<and> map_of us (attempt rs k) = None \<and>
             (\<forall>j<k. map_of us (attempt rs j) \<noteq> None)"
proof (rule generateShortCode.raw_induct
         [where P = "\<lambda>us rs c. \<exists>k. c = attempt rs k \<and> map_of us (attempt rs k) = None \<and>
             (\<forall>j<k. map_of us (attempt rs j) \<noteq> None)", OF _ assms])
  fix gen :: "(string \<times> ShortenedUrl) list \<Rightarrow> nat stream \<Rightarrow> string option"
  fix us rs c
  assume IH: "\<And>us rs c. gen us rs = Some c \<Longrightarrow>
     \<exists>k. c = attempt rs k \<and> map_of us (attempt rs k) = None \<and>
             (\<forall>j<k. map_of us (attempt rs j) \<noteq> None)"
  assume body: "(let p = code_loop 0 [] rs in
      if map_of us (fst p) \<noteq> None then gen us (snd p) else Some (fst p)) = Some c"
  show "\<exists>k. c = attempt rs k \<and> map_of us (attempt rs k) = None \<and>
             (\<forall>j<k. map_of us (attempt rs j) \<noteq> None)"
  proof (cases "map_of us (attempt rs 0) = None")
    case True
    with body show ?thesis
      by (intro exI [of _ 0]) (simp add: attempt_def Let_def)
  next
    case False
    with body have "gen us (sdrop 6 rs) = Some c"
      by (simp add: attempt_def Let_def code_loop_0)
    from IH [OF this] obtain k where k: "c = attempt (sdrop 6 rs) k"
      "map_of us (attempt (sdrop 6 rs) k) = None"
      "\<forall>j<k. map_of us (attempt (sdrop 6 rs) j) \<noteq> None" by blast
    show ?thesis
    proof (intro exI [of _ "Suc k"] conjI allI impI)
      fix j assume "j < Suc k"
      then show "map_of us (attempt rs j) \<noteq> None"
        using False k(3) by (cases j) (auto simp: attempt_sdrop)
    qed (use k in \<open>simp_all add: attempt_sdrop\<close>)
  qed
qed

lemma gen_first_free:
  "map_of us (attempt rs k) = None \<Longrightarrow> \<forall>j<k. map_of us (attempt rs j) \<noteq> None \<Longrightarrow>
   generateShortCode us rs = Some (attempt rs k)"
proof (induction k arbitrary: rs)
  case 0
  then show ?case by (subst gen_unfold) simp
next
  case (Suc k)
  have "map_of us (attempt rs 0) \<noteq> None" using Suc.prems(2) by blast
  moreover have "generateShortCode us (sdrop 6 rs) = Some (attempt (sdrop 6 rs) k)"
    using Suc.prems by (intro Suc.IH) (auto simp: attempt_sdrop)
  ultimately show ?case by (subst gen_unfold) (simp add: attempt_sdrop)
qed

lemma attempt_eq: "attempt rs k = map (\<lambda>r. chars ! (r mod 62)) (stake 6 (sdrop (6 * k) rs))"
  by (simp add: attempt_def code_loop_0)

lemma length_attempt: "length (attempt rs k) = 6"
  by (simp add: attempt_eq)

lemma set_attempt: "set (attempt rs k) \<subseteq> set chars"
  by (auto simp: attempt_eq length_chars)

lemma generated_nonempty:
  assumes "generateShortCode us rs = Some c"
  shows "c \<noteq> []"
proof -
  from gen_Some [OF assms] obtain k where "c = attempt rs k" by blast
  then have "length c = 6" by (simp add: length_attempt)
  then show ?thesis by auto
qed

lemma generated_length: "generateShortCode us rs = Some c \<Longrightarrow> length c = 6"
  using length_attempt by (auto dest: gen_Some)

lemma inherited_length: "inherited s code \<Longrightarrow> length code \<noteq> 6"
  by (auto simp: inherited_def Object_prototype_def)

lemma generated_own: "generateShortCode us rs = Some c \<Longrightarrow> \<not> inherited s c"
  using generated_length inherited_length by blast

section \<open>The outcomes of \<open>shortenUrl\<close>\<close>

lemma find_Object_values_Some:
  "find P (Object_values ps) = Some r \<Longrightarrow> r \<in> snd ` set ps \<and> P r"
  by (metis find_Some_iff nth_mem set_Object_values)

lemma find_Object_values_None:
  "find P (Object_values ps) = None \<longleftrightarrow> (\<forall>r \<in> snd ` set ps. \<not> P r)"
  by (simp add: find_None_iff set_Object_values)

lemma shortenUrl_unfold:
  "shortenUrl newURL now rs s u cc =
     (if \<not> isValidUrl newURL u then Some (Inl InvalidUrl, s)
      else case find (\<lambda>r. originalUrl r = u) (Object_values (urls (storage s))) of
          Some existing \<Rightarrow> Some (Inr existing, s)
        | None \<Rightarrow>
            (case chosen (urls (storage s)) rs cc of
               None \<Rightarrow> None
             | Some code \<Rightarrow>
                 if map_of (urls (storage s)) code \<noteq> None \<or> inherited s code
                 then Some (Inl CodeAlreadyExists, s)
                 else Some (Inr (created_record now s u code), created_state now s u code)))"
  by (simp add: shortenUrl_def chosen_def created_record_def created_state_def Let_def update_absent
      split: option.splits)

lemma chosen_generated_free:
  "chosen us rs cc = Some code \<Longrightarrow> map_of us code \<noteq> None \<or> inherited s code \<Longrightarrow>
     cc = Some code \<and> code \<noteq> []"
  by (auto simp: chosen_def split: option.splits if_splits dest: gen_Some generated_own)

lemma shortenUrl_cases:
  assumes "shortenUrl newURL now rs s u cc = Some (res, s')"
  obtains
    (invalid) "\<not> isValidUrl newURL u" "res = Inl InvalidUrl" "s' = s"
  | (existing) r where "isValidUrl newURL u" "r \<in> snd ` set (urls (storage s))"
      "originalUrl r = u" "res = Inr r" "s' = s"
  | (collision) code where "isValidUrl newURL u"
      "\<forall>r \<in> snd ` set (urls (storage s)). originalUrl r \<noteq> u"
      "cc = Some code" "code \<noteq> []"
      "map_of (urls (storage s)) code \<noteq> None \<or> inherited s code"
      "res = Inl CodeAlreadyExists" "s' = s"
  | (created) code where "isValidUrl newURL u"
      "\<forall>r \<in> snd ` set (urls (storage s)). originalUrl r \<noteq> u"
      "chosen (urls (storage s)) rs cc = Some code" "map_of (urls (storage s)) code = None"
      "\<not> inherited s code"
      "res = Inr (created_record now s u code)" "s' = created_state now s u code"
proof (cases "isValidUrl newURL u")
  case False
  with assms show ?thesis by (intro invalid) (simp_all add: shortenUrl_unfold)
next
  case valid: True
  show ?thesis
  proof (cases "find (\<lambda>r. originalUrl r = u) (Object_values (urls (storage s)))")
    case (Some r)
    with assms valid have "res = Inr r" "s' = s" by (simp_all add: shortenUrl_unfold)
    with valid find_Object_values_Some [OF Some] show ?thesis by (intro existing) simp_all
  next
    case None
    then have fresh: "\<forall>r \<in> snd ` set (urls (storage s)). originalUrl r \<noteq> u"
      by (simp add: find_Object_values_None)
    from assms valid None obtain code where code: "chosen (urls (storage s)) rs cc = Some code"
      by (cases "chosen (urls (storage s)) rs cc") (simp_all add: shortenUrl_unfold)
    show ?thesis
    proof (cases "map_of (urls (storage s)) code \<noteq> None \<or> inherited s code")
      case False
      with assms valid None code show ?thesis
        by (intro created [of code] fresh) (simp_all add: shortenUrl_unfold)
    next
      case True
      with assms valid None code have "res = Inl CodeAlreadyExists" "s' = s"
        by (simp_all add: shortenUrl_unfold)
      with chosen_generated_free [OF code True] valid True show ?thesis
        by (intro collision [of code] fresh) simp_all
    qed
  qed
qed

section \<open>The invariant of the registry\<close>

lemma chosen_nonempty: "chosen us rs cc = Some code \<Longrightarrow> code \<noteq> []"
  by (auto simp: chosen_def split: option.splits if_splits dest: generated_nonempty)


lemma storage_created:
  "storage (created_state now s u code) =
     \<lparr>urls = urls (storage s) @ [(code, created_record now s u code)],
      counter = increment (counter (storage s))\<rparr>"
  by (simp add: created_state_def saveStorage_def)

lemma inv_created:
  assumes "registry_inv newURL s" "isValidUrl newURL u"
    "\<forall>r \<in> snd ` set (urls (storage s)). originalUrl r \<noteq> u"
    "map_of (urls (storage s)) code = None" "code \<noteq> []"
  shows "registry_inv newURL (created_state now s u code)"
proof -
  from assms(4) have "code \<notin> fst ` set (urls (storage s))"
    by (simp add: map_of_eq_None_iff)
  moreover from assms(3) have "u \<notin> (\<lambda>p. originalUrl (snd p)) ` set (urls (storage s))"
    by force
  ultimately show ?thesis
    using assms(1,2,5)
    by (simp add: registry_inv_def storage_created created_record_def)
qed

lemma inv_shortenUrl:
  assumes "registry_inv newURL s" "shortenUrl newURL now rs s u cc = Some (res, s')"
  shows "registry_inv newURL s'"
  using assms(2)
proof (cases rule: shortenUrl_cases)
  case (created code)
  with assms(1) show ?thesis
    by (simp add: inv_created chosen_nonempty)
qed (use assms(1) in simp_all)






lemma stored_unique:
  assumes "registry_inv newURL s" "(k, r) \<in> set (urls (storage s))"
    "r' \<in> snd ` set (urls (storage s))" "originalUrl r' = originalUrl r"
  shows "r' = r"
proof -
  from assms(3) obtain k' where "(k', r') \<in> set (urls (storage s))" by force
  moreover from assms(1) have "inj_on (\<lambda>p. originalUrl (snd p)) (set (urls (storage s)))"
    by (simp add: registry_inv_def distinct_map)
  ultimately have "(k', r') = (k, r)"
    using assms(2,4) inj_onD [of "\<lambda>p. originalUrl (snd p)" _ "(k', r')" "(k, r)"] by simp
  then show ?thesis by simp
qed

lemma stored_valid:
  "registry_inv newURL s \<Longrightarrow> (k, r) \<in> set (urls (storage s)) \<Longrightarrow>
     isValidUrl newURL (originalUrl r) \<and> shortCode r = k \<and> k \<noteq> [] \<and> map_of (urls (storage s)) k = Some r"
  by (auto simp: registry_inv_def list_all_iff)

lemma shortenUrl_existing:
  assumes "registry_inv newURL s" "(k, r) \<in> set (urls (storage s))"
  shows "shortenUrl newURL now rs s (originalUrl r) cc = Some (Inr r, s)"
proof -
  let ?f = "find (\<lambda>x. originalUrl x = originalUrl r) (Object_values (urls (storage s)))"
  from assms(2) have "r \<in> snd ` set (urls (storage s))" by force
  then have "?f \<noteq> None"
    by (auto simp: find_Object_values_None)
  then obtain r' where r': "?f = Some r'" by blast
  from find_Object_values_Some [OF this] have "r' = r"
    using assms by (auto intro: stored_unique)
  with r' stored_valid [OF assms] show ?thesis
    by (simp add: shortenUrl_unfold)
qed

section \<open>Resolving, and when \<open>shortenUrl\<close> returns\<close>

lemma expandUrl_stored:
  "map_of (urls (storage s)) c = Some r \<Longrightarrow> fst (expandUrl now s c t) = Url (originalUrl r)"
  by (simp add: expandUrl_def Let_def)

lemma shortenUrl_returns:
  assumes "\<exists>k. map_of (urls (storage s)) (attempt rs k) = None"
  shows "\<exists>out. shortenUrl newURL now rs s u None = Some out"
proof -
  from assms obtain k where free: "map_of (urls (storage s)) (attempt rs k) = None" by blast
  define m where "m = (LEAST k. map_of (urls (storage s)) (attempt rs k) = None)"
  have "map_of (urls (storage s)) (attempt rs m) = None"
    unfolding m_def using free by (rule LeastI)
  moreover have "\<forall>j<m. map_of (urls (storage s)) (attempt rs j) \<noteq> None"
    unfolding m_def using not_less_Least by blast
  ultimately have "generateShortCode (urls (storage s)) rs = Some (attempt rs m)"
    by (rule gen_first_free)
  then show ?thesis
    by (simp add: shortenUrl_unfold chosen_def split: option.splits)
qed

lemma created_lookup:
  "map_of (urls (storage (created_state now s u code))) code = Some (created_record now s u code)"
  if "map_of (urls (storage s)) code = None"
  using that by (simp add: storage_created map_add_Some_iff)

section \<open>Facts about the example data\<close>

lemma sdrop_sconst: "sdrop n (sconst x) = sconst x"
  by (induction n) simp_all

lemma stake_sconst: "stake n (sconst x) = replicate n x"
  by (simp add: map_replicate_const)

lemma attempt_sconst: "attempt (sconst x) k = replicate 6 (chars ! (x mod 62))"
  by (simp add: attempt_eq sdrop_sconst stake_sconst del: stake_siterate)

lemma pick_0: "chars ! (0 mod 62) = CHR ''a''"
  by (simp add: chars_def)

lemma attempt_sconst_0: "attempt (sconst 0) k = ''aaaaaa''"
  unfolding attempt_sconst pick_0 by (simp add: numeral_eq_Suc)

lemmas url_eval =
  example_URL_def new_URL_def split_scheme_def url_input_def c0_or_space_def
  tab_or_newline_def ascii_alpha_def scheme_char_def to_lower_def lower_letters_def
  upper_letters_def authority_input_def special_schemes_def example_authority_def
  letters_def

lemma example_URL_a:
  "example_URL ''http://a.io'' = Some \<lparr>url_scheme = ''http'', url_host = Some ''a.io''\<rparr>"
  by (simp add: url_eval)

lemma example_URL_b:
  "example_URL ''http://b.io'' = Some \<lparr>url_scheme = ''http'', url_host = Some ''b.io''\<rparr>"
  by (simp add: url_eval)

lemma example_URL_none: "example_URL ''not-a-url'' = None"
  by (simp add: url_eval)

lemma example_URL_mailto:
  "example_URL ''mailto:a@b.c'' = Some \<lparr>url_scheme = ''mailto'', url_host = None\<rparr>"
  by (simp add: url_eval)

lemma valid_a: "isValidUrl example_URL ''http://a.io''"
  by (simp add: isValidUrl_def example_URL_a)

lemma valid_b: "isValidUrl example_URL ''http://b.io''"
  by (simp add: isValidUrl_def example_URL_b)

lemma invalid_example: "\<not> isValidUrl example_URL ''not-a-url''"
  by (simp add: isValidUrl_def example_URL_none)

lemma inv_example: "registry_inv example_URL example_registry"
  using valid_a
  by (simp add: registry_inv_def example_registry_def example_storage_def example_record_def)

lemma urls_new: "urls (storage new_UrlShortener) = []"
  by (simp add: new_UrlShortener_def loadStorage_def)


lemma own_aaaaaa: "\<not> inherited s ''aaaaaa''"
  by (rule notI, drule inherited_length) simp


lemma example_free: "map_of (urls (storage example_registry)) ''aaaaaa'' = None"
  by (simp add: example_registry_def example_storage_def)

lemma example_no_b:
  "find (\<lambda>r. originalUrl r = ''http://b.io'') (Object_values (urls (storage example_registry))) = None"
  by (simp add: find_Object_values_None example_registry_def example_storage_def example_record_def)

lemma example_gen:
  "generateShortCode (urls (storage example_registry)) (sconst 0) = Some ''aaaaaa''"
  using gen_first_free [of "urls (storage example_registry)" "sconst 0" 0]
  by (simp add: attempt_sconst_0 example_free)

lemma example_create_b:
  "shortenUrl example_URL now (sconst 0) example_registry ''http://b.io'' None
      = Some (Inr (created_record now example_registry ''http://b.io'' ''aaaaaa''),
              created_state now example_registry ''http://b.io'' ''aaaaaa'')"
  by (simp add: shortenUrl_unfold valid_b example_no_b chosen_def example_gen example_free
      own_aaaaaa)

section \<open>The claims\<close>

text \<open>
  C1. For every string \<open>u\<close> that the URL constructor accepts and every state
  of the registry, if \<open>shortenUrl(u)\<close> returns, it returns a record, and
  \<open>expandUrl\<close> on the short code of that record returns exactly \<open>u\<close> (with
  or without click tracking). The call does return whenever the random
  source draws, at some attempt, a code that is not in use.
\<close>

theorem create_then_resolve:
  assumes "registry_inv newURL s" and "isValidUrl newURL u"
  shows "(\<forall>res s'. shortenUrl newURL now rs s u None = Some (res, s') \<longrightarrow>
            (\<exists>r. res = Inr r \<and> fst (expandUrl now' s' (shortCode r) trackClick) = Url u))
       \<and> ((\<exists>k. map_of (urls (storage s)) (attempt rs k) = None) \<longrightarrow>
            (\<exists>out. shortenUrl newURL now rs s u None = Some out))"
proof (intro conjI allI impI)
  fix res s'
  assume "shortenUrl newURL now rs s u None = Some (res, s')"
  then show "\<exists>r. res = Inr r \<and> fst (expandUrl now' s' (shortCode r) trackClick) = Url u"
  proof (cases rule: shortenUrl_cases)
    case invalid
    with assms(2) show ?thesis by simp
  next
    case (existing r)
    then obtain k where "(k, r) \<in> set (urls (storage s))" by force
    from stored_valid [OF assms(1) this] existing show ?thesis
      by (simp add: expandUrl_stored)
  next
    case (collision code)
    then show ?thesis by simp
  next
    case (created code)
    then show ?thesis
      by (simp add: expandUrl_stored [OF created_lookup] created_record_def)
  qed
next
  assume "\<exists>k. map_of (urls (storage s)) (attempt rs k) = None"
  then show "\<exists>out. shortenUrl newURL now rs s u None = Some out"
    by (rule shortenUrl_returns)
qed

theorem create_then_resolve_witness:
  "registry_inv example_URL example_registry \<and> isValidUrl example_URL ''http://b.io'' \<and>
   map_of (urls (storage example_registry)) (attempt (sconst 0) 0) = None \<and>
   (\<exists>r s'. shortenUrl example_URL 7 (sconst 0) example_registry ''http://b.io'' None = Some (Inr r, s')
       \<and> shortCode r = ''aaaaaa''
       \<and> fst (expandUrl 8 s' ''aaaaaa'' True) = Url ''http://b.io'')"
proof -
  let ?r = "created_record 7 example_registry ''http://b.io'' ''aaaaaa''"
  let ?s = "created_state 7 example_registry ''http://b.io'' ''aaaaaa''"
  have code: "shortCode ?r = ''aaaaaa''" by (simp add: created_record_def)
  from create_then_resolve [OF inv_example valid_b, of 7 "sconst 0" 8 True]
  have "fst (expandUrl 8 ?s (shortCode ?r) True) = Url ''http://b.io''"
    by (simp add: example_create_b)
  with code have "fst (expandUrl 8 ?s ''aaaaaa'' True) = Url ''http://b.io''" by simp
  with code example_create_b [of 7] have "\<exists>r s'.
      shortenUrl example_URL 7 (sconst 0) example_registry ''http://b.io'' None = Some (Inr r, s')
       \<and> shortCode r = ''aaaaaa''
       \<and> fst (expandUrl 8 s' ''aaaaaa'' True) = Url ''http://b.io''"
    by (intro exI [of _ ?r] exI [of _ ?s] conjI)
  moreover have "map_of (urls (storage example_registry)) (attempt (sconst 0) 0) = None"
    by (simp add: attempt_sconst_0 example_free)
  ultimately show ?thesis using inv_example valid_b by (intro conjI)
qed

section \<open>Claims about \<open>shortenUrl\<close>\<close>

lemma shortenUrl_stores:
  assumes "shortenUrl newURL now rs s u cc = Some (Inr r, s')"
  shows "\<exists>k. (k, r) \<in> set (urls (storage s')) \<and> originalUrl r = u"
  using assms
proof (cases rule: shortenUrl_cases)
  case (existing r')
  then show ?thesis by auto
next
  case (created code)
  then show ?thesis by (auto simp: storage_created created_record_def)
qed simp_all

text \<open>
  C2. \<open>shortenUrl\<close> is idempotent by exact equality of the URL string: in
  a state where a record with \<open>originalUrl = u\<close> is stored, a further call
  for \<open>u\<close>, with or without a custom code, returns that very record and
  leaves the whole state as it was (no record added, counter untouched,
  nothing written). Hence two calls in a row for the same URL return the
  same record, with the same \<open>shortCode\<close> and id.
\<close>

theorem create_idempotent:
  assumes "registry_inv newURL s"
  shows "(\<forall>k r. (k, r) \<in> set (urls (storage s)) \<and> originalUrl r = u \<longrightarrow>
            shortenUrl newURL now rs s u cc = Some (Inr r, s))
       \<and> (\<forall>r s'. shortenUrl newURL now rs s u cc = Some (Inr r, s') \<longrightarrow>
            shortenUrl newURL now' rs' s' u cc' = Some (Inr r, s'))"
proof (intro conjI allI impI)
  fix k r
  assume "(k, r) \<in> set (urls (storage s)) \<and> originalUrl r = u"
  with shortenUrl_existing [OF assms, of k r] show
    "shortenUrl newURL now rs s u cc = Some (Inr r, s)" by auto
next
  fix r s'
  assume first: "shortenUrl newURL now rs s u cc = Some (Inr r, s')"
  from inv_shortenUrl [OF assms first] have inv: "registry_inv newURL s'" .
  from shortenUrl_stores [OF first] obtain k where
    "(k, r) \<in> set (urls (storage s'))" "originalUrl r = u" by blast
  with shortenUrl_existing [OF inv, of k r] show
    "shortenUrl newURL now' rs' s' u cc' = Some (Inr r, s')" by auto
qed

lemma example_member:
  "(''ex1'', example_record ''ex1'' 1 ''http://a.io'' 0) \<in> set (urls (storage example_registry))"
  by (simp add: example_registry_def example_storage_def)

lemma example_original: "originalUrl (example_record c n u k) = u"
  by (simp add: example_record_def)

theorem create_idempotent_witness:
  "registry_inv example_URL example_registry \<and>
   (''ex1'', example_record ''ex1'' 1 ''http://a.io'' 0) \<in> set (urls (storage example_registry)) \<and>
   shortenUrl example_URL 5 (sconst 0) example_registry ''http://a.io'' (Some ''other'')
     = Some (Inr (example_record ''ex1'' 1 ''http://a.io'' 0), example_registry) \<and>
   shortenUrl example_URL 9 (sconst 1) example_registry ''http://a.io'' None
     = Some (Inr (example_record ''ex1'' 1 ''http://a.io'' 0), example_registry)"
proof -
  let ?r = "example_record ''ex1'' 1 ''http://a.io'' 0"
  note inst = create_idempotent [OF inv_example,
      of "''http://a.io''" 5 "sconst 0" "Some ''other''" 9 "sconst 1" None]
  from inst have first: "shortenUrl example_URL 5 (sconst 0) example_registry ''http://a.io''
      (Some ''other'') = Some (Inr ?r, example_registry)"
    using example_member example_original by blast
  with inst have "shortenUrl example_URL 9 (sconst 1) example_registry ''http://a.io'' None
      = Some (Inr ?r, example_registry)"
    by blast
  with first inv_example example_member show ?thesis by (intro conjI)
qed

text \<open>
  C3, as stated, makes \<open>InvalidUrl\<close> the outcome exactly for the strings that
  are not well-formed absolute URLs with a scheme and an authority. The
  code asks the URL constructor instead, and the constructor also accepts
  a URL with a scheme and no authority: for \<open>mailto:a@b.c\<close>, which has no
  authority, \<open>shortenUrl\<close> does not fail with \<open>InvalidUrl\<close>, it stores a record.
\<close>

theorem invalid_url_counterexample:
  "\<not> spec_well_formed example_authority ''mailto:a@b.c'' \<and>
   isValidUrl example_URL ''mailto:a@b.c'' \<and>
   shortenUrl example_URL 5 (sconst 0) new_UrlShortener ''mailto:a@b.c'' None
     = Some (Inr (created_record 5 new_UrlShortener ''mailto:a@b.c'' ''aaaaaa''),
             created_state 5 new_UrlShortener ''mailto:a@b.c'' ''aaaaaa'') \<and>
   shortenUrl example_URL 5 (sconst 0) new_UrlShortener ''mailto:a@b.c'' None
     \<noteq> Some (Inl InvalidUrl, new_UrlShortener)"
proof -
  have 1: "\<not> spec_well_formed example_authority ''mailto:a@b.c''"
    using example_URL_mailto by (simp add: spec_well_formed_def example_URL_def)
  have 2: "isValidUrl example_URL ''mailto:a@b.c''"
    by (simp add: isValidUrl_def example_URL_mailto)
  have gen: "generateShortCode [] (sconst 0) = Some ''aaaaaa''"
    using gen_first_free [of "[]" "sconst 0" 0] by (simp add: attempt_sconst_0)
  have 3: "shortenUrl example_URL 5 (sconst 0) new_UrlShortener ''mailto:a@b.c'' None
     = Some (Inr (created_record 5 new_UrlShortener ''mailto:a@b.c'' ''aaaaaa''),
             created_state 5 new_UrlShortener ''mailto:a@b.c'' ''aaaaaa'')"
    by (simp add: shortenUrl_unfold 2 chosen_def own_aaaaaa Object_values_Nil urls_new gen)
  then have "shortenUrl example_URL 5 (sconst 0) new_UrlShortener ''mailto:a@b.c'' None
     \<noteq> Some (Inl InvalidUrl, new_UrlShortener)"
    by simp
  with 1 2 3 show ?thesis by (intro conjI)
qed

text \<open>
  C3, amended. \<open>shortenUrl\<close> fails with \<open>InvalidUrl\<close> exactly when the URL
  constructor rejects its argument, and then it leaves the state as it was
  (mapping and counter unchanged, nothing written). The constructor
  accepts a string exactly when it starts with a scheme and the authority,
  if the rules ask for one after that scheme, parses; the criterion of
  the specification asks for an authority in every case.
\<close>

theorem invalid_url_rejected:
  "(\<not> isValidUrl newURL u \<longrightarrow> shortenUrl newURL now rs s u cc = Some (Inl InvalidUrl, s))
   \<and> (isValidUrl newURL u \<longrightarrow> (\<forall>s'. shortenUrl newURL now rs s u cc \<noteq> Some (Inl InvalidUrl, s')))
   \<and> (isValidUrl (new_URL parse_authority) u \<longleftrightarrow>
        (\<exists>scheme rest. split_scheme u = Some (scheme, rest) \<and>
           (\<forall>a. authority_input scheme rest = Some a \<longrightarrow> parse_authority scheme a \<noteq> None)))
   \<and> (spec_well_formed parse_authority u \<longleftrightarrow>
        (\<exists>scheme rest a. split_scheme u = Some (scheme, rest) \<and>
           authority_input scheme rest = Some a \<and> parse_authority scheme a \<noteq> None))"
proof (intro conjI)
  show "\<not> isValidUrl newURL u \<longrightarrow> shortenUrl newURL now rs s u cc = Some (Inl InvalidUrl, s)"
    by (simp add: shortenUrl_unfold)
  show "isValidUrl newURL u \<longrightarrow>
      (\<forall>s'. shortenUrl newURL now rs s u cc \<noteq> Some (Inl InvalidUrl, s'))"
    by (auto simp: shortenUrl_unfold split: option.splits)
  show "isValidUrl (new_URL parse_authority) u \<longleftrightarrow>
        (\<exists>scheme rest. split_scheme u = Some (scheme, rest) \<and>
           (\<forall>a. authority_input scheme rest = Some a \<longrightarrow> parse_authority scheme a \<noteq> None))"
    by (auto simp: isValidUrl_def new_URL_def split: option.splits)
  show "spec_well_formed parse_authority u \<longleftrightarrow>
        (\<exists>scheme rest a. split_scheme u = Some (scheme, rest) \<and>
           authority_input scheme rest = Some a \<and> parse_authority scheme a \<noteq> None)"
    by (auto simp: spec_well_formed_def new_URL_def split: option.splits)
qed

theorem invalid_url_rejected_witness:
  "\<not> isValidUrl example_URL ''not-a-url'' \<and>
   shortenUrl example_URL 5 (sconst 0) example_registry ''not-a-url'' None
     = Some (Inl InvalidUrl, example_registry) \<and>
   isValidUrl example_URL ''http://b.io'' \<and>
   shortenUrl example_URL 5 (sconst 0) example_registry ''http://b.io'' None
     \<noteq> Some (Inl InvalidUrl, example_registry) \<and>
   split_scheme ''http://b.io'' = Some (''http'', ''//b.io'') \<and>
   authority_input ''http'' ''//b.io'' = Some ''b.io'' \<and>
   example_authority ''http'' ''b.io'' \<noteq> None \<and>
   spec_well_formed example_authority ''http://b.io''"
proof -
  note inst = invalid_url_rejected [of example_URL _ 5 "sconst 0" example_registry None
      example_authority]
  have 1: "split_scheme ''http://b.io'' = Some (''http'', ''//b.io'')"
    by (simp add: url_eval)
  have 2: "authority_input ''http'' ''//b.io'' = Some ''b.io''"
    by (simp add: url_eval)
  have 3: "example_authority ''http'' ''b.io'' \<noteq> None"
    by (simp add: url_eval)
  from inst [of "''http://b.io''", THEN conjunct2, THEN conjunct2, THEN conjunct2] 1 2 3
  have 4: "spec_well_formed example_authority ''http://b.io''" by blast
  from inst [of "''not-a-url''", THEN conjunct1] invalid_example
  have 5: "shortenUrl example_URL 5 (sconst 0) example_registry ''not-a-url'' None
     = Some (Inl InvalidUrl, example_registry)" by (rule mp)
  from inst [of "''http://b.io''", THEN conjunct2, THEN conjunct1] valid_b
  have "\<forall>s'. shortenUrl example_URL 5 (sconst 0) example_registry ''http://b.io'' None
     \<noteq> Some (Inl InvalidUrl, s')" by (rule mp)
  then have 6: "shortenUrl example_URL 5 (sconst 0) example_registry ''http://b.io'' None
     \<noteq> Some (Inl InvalidUrl, example_registry)" by (rule spec)
  from invalid_example 5 valid_b 6 1 2 3 4 show ?thesis by (intro conjI)
qed

text \<open>
  C4. In a state with a record under the short code \<open>c\<close>, for every URL \<open>v\<close>
  that is not the \<open>originalUrl\<close> of a stored record, \<open>shortenUrl(v, c)\<close>
  fails with \<open>CodeAlreadyExists\<close> and leaves the state as it was: no record
  inserted, no id consumed, nothing written.
\<close>

theorem custom_code_collision:
  assumes "registry_inv newURL s" and "map_of (urls (storage s)) c = Some r"
    and "isValidUrl newURL v"
    and "v \<notin> set (map (originalUrl \<circ> snd) (urls (storage s)))"
  shows "shortenUrl newURL now rs s v (Some c) = Some (Inl CodeAlreadyExists, s)"
proof -
  from assms(2) have "(c, r) \<in> set (urls (storage s))" by (rule map_of_SomeD)
  with assms(1) have "c \<noteq> []" by (simp add: stored_valid)
  moreover from assms(4) have
    "find (\<lambda>r. originalUrl r = v) (Object_values (urls (storage s))) = None"
    by (force simp: find_Object_values_None)
  ultimately show ?thesis
    using assms(2,3) by (simp add: shortenUrl_unfold chosen_def)
qed

theorem custom_code_collision_witness:
  "registry_inv example_URL example_registry \<and>
   map_of (urls (storage example_registry)) ''ex1''
     = Some (example_record ''ex1'' 1 ''http://a.io'' 0) \<and>
   isValidUrl example_URL ''http://b.io'' \<and>
   ''http://b.io'' \<notin> set (map (originalUrl \<circ> snd) (urls (storage example_registry))) \<and>
   shortenUrl example_URL 5 (sconst 0) example_registry ''http://b.io'' (Some ''ex1'')
     = Some (Inl CodeAlreadyExists, example_registry)"
proof -
  have look: "map_of (urls (storage example_registry)) ''ex1''
      = Some (example_record ''ex1'' 1 ''http://a.io'' 0)"
    by (simp add: example_registry_def example_storage_def)
  have new: "''http://b.io'' \<notin> set (map (originalUrl \<circ> snd) (urls (storage example_registry)))"
    by (simp add: example_registry_def example_storage_def example_record_def)
  from custom_code_collision [OF inv_example look valid_b new, of 5 "sconst 0"]
  show ?thesis using inv_example look valid_b new by (intro conjI)
qed

section \<open>Claims about generated codes\<close>

lemma distinct_chars: "distinct chars"
  by (simp add: chars_def)

lemma generated_iff:
  "generateShortCode us rs = Some c \<longleftrightarrow>
     (\<exists>k. c = attempt rs k \<and> map_of us c = None \<and> (\<forall>j<k. map_of us (attempt rs j) \<noteq> None))"
proof
  assume "generateShortCode us rs = Some c"
  from gen_Some [OF this] show "\<exists>k. c = attempt rs k \<and> map_of us c = None \<and>
      (\<forall>j<k. map_of us (attempt rs j) \<noteq> None)" by auto
next
  assume "\<exists>k. c = attempt rs k \<and> map_of us c = None \<and>
      (\<forall>j<k. map_of us (attempt rs j) \<noteq> None)"
  then obtain k where "c = attempt rs k" "map_of us (attempt rs k) = None"
    "\<forall>j<k. map_of us (attempt rs j) \<noteq> None" by auto
  then show "generateShortCode us rs = Some c" by (simp add: gen_first_free)
qed

lemma generated_shape:
  assumes "generateShortCode us rs = Some c"
  shows "length c = 6 \<and> set c \<subseteq> set chars \<and> map_of us c = None"
proof -
  from gen_Some [OF assms] obtain k where "c = attempt rs k" "map_of us c = None" by auto
  then show ?thesis by (simp add: length_attempt set_attempt)
qed

lemma shortenUrl_generated:
  assumes "shortenUrl newURL now rs s u cc = Some (Inr r, s')" "s' \<noteq> s"
    and "cc = None \<or> cc = Some []"
  shows "generateShortCode (urls (storage s)) rs = Some (shortCode r) \<and>
         urls (storage s') = urls (storage s) @ [(shortCode r, r)]"
  using assms(1)
proof (cases rule: shortenUrl_cases)
  case (created code)
  with assms(3) show ?thesis
    by (auto simp: chosen_def storage_created created_record_def)
qed (use assms(2) in simp_all)

lemma shortenUrl_no_custom:
  assumes "shortenUrl newURL now rs s u cc = Some out" "cc = None \<or> cc = Some []"
  shows "fst out \<noteq> Inl CodeAlreadyExists"
proof -
  obtain res s' where out: "out = (res, s')" by (cases out)
  from assms(1) [unfolded out] show ?thesis
  proof (cases rule: shortenUrl_cases)
    case (collision code)
    with assms(2) show ?thesis by auto
  qed (simp_all add: out)
qed

text \<open>
  C5. The alphabet has 62 different characters. Whatever
  \<open>generateShortCode\<close> returns is 6 characters of the alphabet and is not a
  key of the mapping; it is the first code drawn that is not in use, the
  codes drawn before it having been discarded. A call of \<open>shortenUrl\<close>
  without a custom code never fails with \<open>CodeAlreadyExists\<close>, and the
  record it adds is stored under the generated code.
\<close>

theorem generated_codes:
  "length chars = 62 \<and> distinct chars
   \<and> (\<forall>c. generateShortCode us rs = Some c \<longrightarrow>
          length c = 6 \<and> set c \<subseteq> set chars \<and> map_of us c = None)
   \<and> (\<forall>c. generateShortCode us rs = Some c \<longleftrightarrow>
          (\<exists>k. c = attempt rs k \<and> map_of us c = None \<and>
               (\<forall>j<k. map_of us (attempt rs j) \<noteq> None)))
   \<and> (\<forall>out. shortenUrl newURL now rs s u None = Some out \<longrightarrow>
          fst out \<noteq> Inl CodeAlreadyExists)
   \<and> (\<forall>r s'. shortenUrl newURL now rs s u None = Some (Inr r, s') \<and> s' \<noteq> s \<longrightarrow>
          generateShortCode (urls (storage s)) rs = Some (shortCode r) \<and>
          urls (storage s') = urls (storage s) @ [(shortCode r, r)])"
proof (intro conjI allI impI)
  show "length chars = 62" by (rule length_chars)
  show "distinct chars" by (rule distinct_chars)
next
  fix c assume "generateShortCode us rs = Some c"
  from generated_shape [OF this]
  show "length c = 6" "set c \<subseteq> set chars" "map_of us c = None" by simp_all
next
  fix c show "generateShortCode us rs = Some c \<longleftrightarrow>
          (\<exists>k. c = attempt rs k \<and> map_of us c = None \<and>
               (\<forall>j<k. map_of us (attempt rs j) \<noteq> None))"
    by (rule generated_iff)
next
  fix out assume "shortenUrl newURL now rs s u None = Some out"
  then show "fst out \<noteq> Inl CodeAlreadyExists" by (rule shortenUrl_no_custom) simp
next
  fix r s' assume a: "shortenUrl newURL now rs s u None = Some (Inr r, s') \<and> s' \<noteq> s"
  with shortenUrl_generated [of newURL now rs s u None r s']
  have "generateShortCode (urls (storage s)) rs = Some (shortCode r) \<and>
         urls (storage s') = urls (storage s) @ [(shortCode r, r)]"
    by simp
  then show "generateShortCode (urls (storage s)) rs = Some (shortCode r)"
    "urls (storage s') = urls (storage s) @ [(shortCode r, r)]" by simp_all
qed

lemma pick_1: "chars ! (1 mod 62) = CHR ''b''"
  unfolding chars_def by simp

lemma attempt_shift_0:
  "length w = 6 \<Longrightarrow> attempt (w @- s) 0 = map (\<lambda>r. chars ! (r mod 62)) w"
  by (simp add: attempt_eq stake_shift)

lemma attempt_shift_Suc:
  assumes "length w = 6"
  shows "attempt (w @- s) (Suc k) = attempt s k"
proof -
  have "sdrop (6 * Suc k) (w @- s) = sdrop (6 * k) s"
    using assms by (simp add: sdrop_shift)
  then show ?thesis by (simp only: attempt_eq)
qed

lemma attempt_draws_0: "attempt example_draws 0 = ''aaaaaa''"
proof -
  have "attempt example_draws 0 = replicate 6 (chars ! (0 mod 62))"
    by (simp add: example_draws_def attempt_shift_0)
  then show ?thesis unfolding pick_0 by (simp add: numeral_eq_Suc)
qed

lemma attempt_draws_1: "attempt example_draws (Suc 0) = ''bbbbbb''"
proof -
  have "attempt example_draws (Suc 0) = replicate 6 (chars ! (1 mod 62))"
    by (simp only: example_draws_def attempt_shift_Suc length_replicate attempt_sconst)
  then show ?thesis unfolding pick_1 by (simp add: numeral_eq_Suc)
qed

lemma urls_example2:
  "urls (storage example_registry2) =
     [(''ex1'', example_record ''ex1'' 1 ''http://a.io'' 0),
      (''aaaaaa'', created_record 7 example_registry ''http://b.io'' ''aaaaaa'')]"
  by (simp add: example_registry2_def storage_created example_registry_def example_storage_def)

lemma example2_gen:
  "generateShortCode (urls (storage example_registry2)) example_draws = Some ''bbbbbb''"
proof -
  have "map_of (urls (storage example_registry2)) (attempt example_draws (Suc 0)) = None"
    by (simp add: urls_example2 attempt_draws_1)
  moreover have
    "\<forall>j<Suc 0. map_of (urls (storage example_registry2)) (attempt example_draws j) \<noteq> None"
    by (simp add: urls_example2 attempt_draws_0)
  ultimately have "generateShortCode (urls (storage example_registry2)) example_draws
      = Some (attempt example_draws (Suc 0))"
    by (rule gen_first_free)
  then show ?thesis by (simp only: attempt_draws_1)
qed

theorem generated_codes_witness:
  "generateShortCode (urls (storage example_registry2)) example_draws = Some ''bbbbbb'' \<and>
   map_of (urls (storage example_registry2)) (attempt example_draws 0) \<noteq> None \<and>
   set ''bbbbbb'' \<subseteq> set chars \<and>
   map_of (urls (storage example_registry2)) ''bbbbbb'' = None \<and>
   shortenUrl example_URL 7 (sconst 0) example_registry ''http://b.io'' None
     = Some (Inr (created_record 7 example_registry ''http://b.io'' ''aaaaaa''), example_registry2) \<and>
   example_registry2 \<noteq> example_registry \<and>
   generateShortCode (urls (storage example_registry)) (sconst 0) = Some ''aaaaaa''"
proof -
  note inst = generated_codes [of "urls (storage example_registry2)" example_draws
      example_URL 7 example_registry "''http://b.io''"]
  note inst0 = generated_codes [of "urls (storage example_registry)" "sconst 0"
      example_URL 7 example_registry "''http://b.io''"]
  have ne: "example_registry2 \<noteq> example_registry"
    by (simp add: example_registry2_def created_state_def saveStorage_def example_registry_def)
  have run: "shortenUrl example_URL 7 (sconst 0) example_registry ''http://b.io'' None
     = Some (Inr (created_record 7 example_registry ''http://b.io'' ''aaaaaa''), example_registry2)"
    by (simp add: example_create_b example_registry2_def)
  from inst [THEN conjunct2, THEN conjunct2, THEN conjunct1, rule_format, OF example2_gen]
  have "set ''bbbbbb'' \<subseteq> set chars \<and> map_of (urls (storage example_registry2)) ''bbbbbb'' = None"
    by (rule conjunct2)
  moreover from inst0 [THEN conjunct2, THEN conjunct2, THEN conjunct2, THEN conjunct2,
      THEN conjunct2, rule_format, OF conjI [OF run ne]]
  have "generateShortCode (urls (storage example_registry)) (sconst 0)
      = Some (shortCode (created_record 7 example_registry ''http://b.io'' ''aaaaaa''))"
    by (rule conjunct1)
  then have "generateShortCode (urls (storage example_registry)) (sconst 0) = Some ''aaaaaa''"
    by (simp add: created_record_def)
  moreover have "map_of (urls (storage example_registry2)) (attempt example_draws 0) \<noteq> None"
    by (simp add: urls_example2 attempt_draws_0)
  ultimately show ?thesis using example2_gen run ne by (intro conjI) simp_all
qed

text \<open>
  C9. The empty string as custom code counts as no custom code: the call
  does exactly what the call without a custom code does. The record it
  adds is stored under the generated 6-character code, and what the
  mapping holds under the empty key is left as it was.
\<close>

theorem empty_custom_code:
  "shortenUrl newURL now rs s u (Some []) = shortenUrl newURL now rs s u None
   \<and> (\<forall>r s'. shortenUrl newURL now rs s u (Some []) = Some (Inr r, s') \<and> s' \<noteq> s \<longrightarrow>
          generateShortCode (urls (storage s)) rs = Some (shortCode r) \<and>
          length (shortCode r) = 6 \<and>
          urls (storage s') = urls (storage s) @ [(shortCode r, r)] \<and>
          map_of (urls (storage s')) [] = map_of (urls (storage s)) [])"
proof (intro conjI allI impI)
  have "chosen (urls (storage s)) rs (Some []) = chosen (urls (storage s)) rs None"
    by (simp add: chosen_def)
  then show "shortenUrl newURL now rs s u (Some []) = shortenUrl newURL now rs s u None"
    by (simp only: shortenUrl_unfold)
next
  fix r s'
  assume "shortenUrl newURL now rs s u (Some []) = Some (Inr r, s') \<and> s' \<noteq> s"
  with shortenUrl_generated [of newURL now rs s u "Some []" r s']
  have gen: "generateShortCode (urls (storage s)) rs = Some (shortCode r)"
    and us: "urls (storage s') = urls (storage s) @ [(shortCode r, r)]" by simp_all
  from generated_shape [OF gen] have len: "length (shortCode r) = 6" by simp
  then have "shortCode r \<noteq> []" by auto
  with us have "map_of (urls (storage s')) [] = map_of (urls (storage s)) []"
    by (auto simp: map_add_def split: option.splits)
  with gen us len show "generateShortCode (urls (storage s)) rs = Some (shortCode r)"
    "length (shortCode r) = 6" "urls (storage s') = urls (storage s) @ [(shortCode r, r)]"
    "map_of (urls (storage s')) [] = map_of (urls (storage s)) []" by simp_all
qed

lemma example2_differs: "example_registry2 \<noteq> example_registry"
  by (simp add: example_registry2_def created_state_def saveStorage_def example_registry_def)

theorem empty_custom_code_witness:
  "shortenUrl example_URL 7 (sconst 0) example_registry ''http://b.io'' (Some [])
     = Some (Inr (created_record 7 example_registry ''http://b.io'' ''aaaaaa''), example_registry2) \<and>
   example_registry2 \<noteq> example_registry \<and>
   length (shortCode (created_record 7 example_registry ''http://b.io'' ''aaaaaa'')) = 6 \<and>
   map_of (urls (storage example_registry2)) [] = map_of (urls (storage example_registry)) []"
proof -
  let ?r = "created_record 7 example_registry ''http://b.io'' ''aaaaaa''"
  note inst = empty_custom_code [of example_URL 7 "sconst 0" example_registry "''http://b.io''"]
  from inst [THEN conjunct1]
  have run: "shortenUrl example_URL 7 (sconst 0) example_registry ''http://b.io'' (Some [])
     = Some (Inr ?r, example_registry2)"
    by (simp only: example_create_b example_registry2_def)
  note res = inst [THEN conjunct2, rule_format, OF conjI [OF run example2_differs]]
  from res [THEN conjunct2, THEN conjunct1]
    res [THEN conjunct2, THEN conjunct2, THEN conjunct2] run example2_differs
  show ?thesis by (intro conjI)
qed

text \<open>
  C10. The search for a record with the same URL comes before the custom
  code is looked at: in a state that stores a record for \<open>u\<close>,
  \<open>shortenUrl(u, c)\<close> returns that record, stored under its own code as
  before, and leaves the state as it was, whatever \<open>c\<close> is; also when \<open>c\<close>
  is the code of another record, there is no \<open>CodeAlreadyExists\<close>.
\<close>

theorem duplicate_url_before_custom_code:
  assumes "registry_inv newURL s" and "(k, r) \<in> set (urls (storage s))"
    and "originalUrl r = u"
  shows "shortenUrl newURL now rs s u (Some c) = Some (Inr r, s) \<and> shortCode r = k
         \<and> map_of (urls (storage s)) k = Some r"
  using shortenUrl_existing [OF assms(1,2), of now rs "Some c"] stored_valid [OF assms(1,2)]
    assms(3) by simp

lemma inv_example2: "registry_inv example_URL example_registry2"
  using inv_shortenUrl [OF inv_example example_create_b [of 7]]
  by (simp add: example_registry2_def)

theorem duplicate_url_before_custom_code_witness:
  "registry_inv example_URL example_registry2 \<and>
   (''ex1'', example_record ''ex1'' 1 ''http://a.io'' 0) \<in> set (urls (storage example_registry2)) \<and>
   (''aaaaaa'', created_record 7 example_registry ''http://b.io'' ''aaaaaa'')
      \<in> set (urls (storage example_registry2)) \<and>
   shortenUrl example_URL 9 (sconst 0) example_registry2 ''http://a.io'' (Some ''aaaaaa'')
     = Some (Inr (example_record ''ex1'' 1 ''http://a.io'' 0), example_registry2)"
proof -
  have m1: "(''ex1'', example_record ''ex1'' 1 ''http://a.io'' 0)
      \<in> set (urls (storage example_registry2))"
    and m2: "(''aaaaaa'', created_record 7 example_registry ''http://b.io'' ''aaaaaa'')
      \<in> set (urls (storage example_registry2))"
    by (simp_all add: urls_example2)
  from duplicate_url_before_custom_code [OF inv_example2 m1 example_original,
      of 9 "sconst 0" "''aaaaaa''"]
  have "shortenUrl example_URL 9 (sconst 0) example_registry2 ''http://a.io'' (Some ''aaaaaa'')
     = Some (Inr (example_record ''ex1'' 1 ''http://a.io'' 0), example_registry2)"
    by (rule conjunct1)
  with inv_example2 m1 m2 show ?thesis by (intro conjI)
qed

section \<open>Claims about \<open>expandUrl\<close>\<close>





section \<open>Claims about \<open>getStats\<close>\<close>
















section \<open>Claims about the counter and the ids\<close>


lemma shortenUrl_changed:
  assumes "shortenUrl newURL now rs s u cc = Some (res, s')" "s' \<noteq> s"
  obtains code where "res = Inr (created_record now s u code)"
    "s' = created_state now s u code"
  using assms(1)
proof (cases rule: shortenUrl_cases)
  case (created code)
  then show ?thesis by (intro that [of code])
qed (use assms(2) in simp_all)


lemma storage_expandUrl_absent:
  "map_of (urls (storage s)) c = None \<Longrightarrow> storage (snd (expandUrl now s c t)) = storage s"
  by (simp add: expandUrl_def saveStorage_def)

lemma counter_expandUrl: "counter (storage (snd (expandUrl now s c t))) = counter (storage s)"
  by (cases "map_of (urls (storage s)) c")
     (simp_all add: storage_expandUrl_absent, simp add: expandUrl_def saveStorage_def Let_def)

lemma counter_deleteUrl: "counter (storage (snd (deleteUrl s c))) = counter (storage s)"
  by (simp add: deleteUrl_def saveStorage_def)




lemma assigned_shortenUrl:
  assumes "shortenUrl newURL now rs s u cc = Some out"
  shows "(snd out = s \<and> assigned s out = []) \<or>
         (\<exists>code. snd out = created_state now s u code \<and>
            assigned s out = [''url_'' @ number_toString (increment (counter (storage s)))])"
proof (cases "snd out = s")
  case True
  then show ?thesis by (simp add: assigned_def split: sum.splits)
next
  case False
  obtain res s' where out: "out = (res, s')" by (cases out)
  with False have "s' \<noteq> s" by simp
  with assms [unfolded out] obtain code where
    "res = Inr (created_record now s u code)" "s' = created_state now s u code"
    by (rule shortenUrl_changed)
  with False out show ?thesis by (auto simp: assigned_def created_record_def)
qed


lemma increment_bound: "n \<le> 2 ^ 53 \<Longrightarrow> increment n \<le> 2 ^ 53"
  by (simp add: increment_def)

lemma run_counter_bound: "run newURL s ids \<Longrightarrow> counter (storage s) \<le> 2 ^ 53"
proof (induction rule: run.induct)
  case run_new
  show ?case by (simp add: new_UrlShortener_def loadStorage_def)
next
  case (run_shorten s ids now rs url customCode out)
  from assigned_shortenUrl [OF run_shorten(2)] run_shorten.IH
    increment_bound [of "counter (storage s)"]
  show ?case by (auto simp: storage_created)
next
  case (run_expand s ids now code trackClick)
  then show ?case by (simp add: counter_expandUrl)
next
  case (run_delete s ids code)
  then show ?case by (simp add: counter_deleteUrl)
qed











end
